theory Spec2Isabelle
  imports Main "HOL-Library.Stream" "HOL-Library.Sublist" "HOL-Library.Multiset"
begin

section \<open>Hospital stay prediction: the data model\<close>

text \<open>
  A shallow embedding of \<^verbatim>\<open>app.py\<close> and \<^verbatim>\<open>models.py\<close>. Python integers are \<open>int\<close>,
  strings are \<open>string\<close>, a raised exception is the \<open>Inl\<close> of a sum. The three tables of
  \<^verbatim>\<open>models.py\<close> are lists of rows in rowid (insertion) order.
\<close>

datatype py_error = ValueError | KeyError | IndexError | IntegrityError | OtherError string

text \<open>The dictionary stored under \<^verbatim>\<open>session['detection_data']\<close> (app.py, lines 145-152).\<close>

record patient_data =
  age :: int
  severity :: string
  comorbidities :: int
  temperature :: string
  blood_pressure :: string
  oxygen_saturation :: string

text \<open>\<^verbatim>\<open>class User\<close> (models.py, lines 7-14).\<close>

record User =
  u_id :: int
  u_name :: string
  u_email :: string
  u_age :: int
  u_contact :: string
  u_password_hash :: string

text \<open>\<^verbatim>\<open>class Precaution\<close> (models.py, lines 22-25).\<close>

record Precaution =
  p_id :: int
  p_text :: string

text \<open>
  \<^verbatim>\<open>class Prediction\<close> (models.py, lines 27-38). \<open>timestamp\<close> is the value of the store's
  \<^verbatim>\<open>CURRENT_TIMESTAMP\<close> at the insert, in seconds.
\<close>

record Prediction =
  r_id :: int
  user_id :: int
  r_age :: int
  r_severity :: string
  r_comorbidities :: int
  r_temperature :: string
  r_blood_pressure :: string
  r_oxygen_saturation :: string
  predicted_days :: int
  timestamp :: int

text \<open>
  The store. \<open>foreign_keys\<close> says whether the engine checks the declared
  \<^verbatim>\<open>db.ForeignKey('users.id')\<close> of \<^verbatim>\<open>Prediction.user_id\<close> when a row is written. The
  application configures \<^verbatim>\<open>sqlite:///hospital.db\<close> (app.py, line 14); SQLite checks
  foreign keys only on a connection that has issued \<^verbatim>\<open>PRAGMA foreign_keys = ON\<close>, which
  the application never does, so its store has \<open>foreign_keys = False\<close> (see \<open>empty_db\<close>).
\<close>

record database =
  users :: "User list"
  precautions :: "Precaution list"
  predictions :: "Prediction list"
  foreign_keys :: bool

text \<open>
  The Flask session of one client: the account key that flask-login keeps under
  \<^verbatim>\<open>_user_id\<close>, and \<^verbatim>\<open>detection_data\<close>, absent until the intake form was submitted.
\<close>

record session_state =
  login_user_id :: "int option"
  detection_data :: "patient_data option"

text \<open>
  The text generator: called with the prompt, \<^verbatim>\<open>num_return_sequences\<close> and
  \<^verbatim>\<open>max_length\<close>, it returns a list of dictionaries or raises.
\<close>

type_synonym gen_item = "(string \<times> string) list"

type_synonym generator = "string \<Rightarrow> nat \<Rightarrow> nat \<Rightarrow> py_error + gen_item list"

text \<open>
  The process: the store, the module-level \<^verbatim>\<open>generator\<close>, and the two global random
  generators, each the stream of the outcomes of its future calls
  (\<^verbatim>\<open>np.random.randint\<close> and \<^verbatim>\<open>random.sample\<close>); a call takes the head and leaves the tail.
\<close>

record app =
  db :: database
  generator :: "generator option"
  np_random :: "int stream"
  py_random :: "nat list stream"

datatype response =
    Redirect string
  | Render_output int "Precaution list" "string list" patient_data
  | Render_main User "Prediction list"

section \<open>The estimator\<close>

text \<open>
  \<^verbatim>\<open>np.random.randint(low, high)\<close> returns an integer of the half-open range
  \<open>{low..<high}\<close>; the outcome is the injected head of the stream.
\<close>

definition randint_range :: "int \<Rightarrow> int \<Rightarrow> int set" where
  "randint_range low high = {low..<high}"

definition np_randint :: "int \<Rightarrow> int \<Rightarrow> int stream \<Rightarrow> int \<times> int stream" where
  "np_randint low high rng = (shd rng, stl rng)"

text \<open>\<^verbatim>\<open>predict_stay_length\<close> (app.py, lines 27-39).\<close>

definition predict_stay_length :: "patient_data \<Rightarrow> int stream \<Rightarrow> int \<times> int stream" where
  "predict_stay_length patient rng =
     (let base_days = 3;
          base_days = (if age patient > 65 then base_days + 2 else base_days);
          base_days = (if severity patient = ''high'' then base_days + 3
                       else if severity patient = ''medium'' then base_days + 1
                       else base_days);
          base_days = (if comorbidities patient > 2 then base_days + 2 else base_days);
          (jitter, rng') = np_randint (- 1) 3 rng
      in (max 1 (base_days + jitter), rng'))"

text \<open>
  The \<^verbatim>\<open>NumberRange\<close> bounds and the choices that \<^verbatim>\<open>DetectionForm\<close> (app.py, lines 69-73)
  declares for the three fields the estimator reads. (\<^verbatim>\<open>DataRequired\<close> rejects a
  comorbidity count of 0 besides; the estimator is defined there all the same.)
\<close>

definition valid_intake :: "patient_data \<Rightarrow> bool" where
  "valid_intake patient \<longleftrightarrow>
     1 \<le> age patient \<and> age patient \<le> 120 \<and>
     (severity patient = ''low'' \<or> severity patient = ''medium'' \<or> severity patient = ''high'') \<and>
     0 \<le> comorbidities patient \<and> comorbidities patient \<le> 10"

section \<open>The store\<close>

text \<open>The next integer primary key: one more than the largest key of the table.\<close>

definition next_pk :: "int list \<Rightarrow> int" where
  "next_pk ids = foldr max ids 0 + 1"

text \<open>
  \<^verbatim>\<open>db.session.add(prediction); db.session.commit()\<close> (app.py, lines 166-177): one
  transaction. A rejected write raises and leaves the store as it was.
\<close>

definition add_prediction ::
  "database \<Rightarrow> int \<Rightarrow> patient_data \<Rightarrow> int \<Rightarrow> int \<Rightarrow> py_error + database" where
  "add_prediction d uid patient days now =
     (if foreign_keys d \<and> uid \<notin> set (map u_id (users d)) then Inl IntegrityError
      else Inr (d\<lparr>predictions := predictions d @
        [\<lparr>r_id = next_pk (map r_id (predictions d)),
          user_id = uid,
          r_age = age patient,
          r_severity = severity patient,
          r_comorbidities = comorbidities patient,
          r_temperature = temperature patient,
          r_blood_pressure = blood_pressure patient,
          r_oxygen_saturation = oxygen_saturation patient,
          predicted_days = days,
          timestamp = now\<rparr>]\<rparr>))"

text \<open>\<^verbatim>\<open>load_user\<close> (app.py, lines 47-49) and the \<^verbatim>\<open>current_user\<close> flask-login derives from it.\<close>

definition load_user :: "database \<Rightarrow> int \<Rightarrow> User option" where
  "load_user d uid = find (\<lambda>u. u_id u = uid) (users d)"

definition current_user :: "database \<Rightarrow> session_state \<Rightarrow> User option" where
  "current_user d sess =
     (case login_user_id sess of None \<Rightarrow> None | Some uid \<Rightarrow> load_user d uid)"

text \<open>
  The query of \<^verbatim>\<open>main\<close> (app.py, line 137): the account's rows by descending timestamp,
  at most 5. Rows with equal timestamps stay in rowid order, as the engine returns them.
\<close>

definition recent_predictions :: "database \<Rightarrow> int \<Rightarrow> Prediction list" where
  "recent_predictions d uid =
     take 5 (sort_key (\<lambda>r. - timestamp r) (filter (\<lambda>r. user_id r = uid) (predictions d)))"

text \<open>\<^verbatim>\<open>init_db\<close> (models.py, lines 42-62).\<close>

definition seed_precautions :: "string list" where
  "seed_precautions =
     [''Maintain proper hygiene to prevent hospital-acquired infections.'',
      ''Follow all prescribed medication schedules without missing doses.'',
      ''Engage in light physical activity as recommended by your healthcare provider.'',
      ''Ensure adequate hydration and nutrition during your hospital stay.'',
      ''Communicate openly with your care team about any concerns or symptoms.'',
      ''Get sufficient rest to support your body'' @ [CHR 0x27] @ ''s healing process.'',
      ''Keep your environment clean and sanitized.'',
      ''Monitor your vital signs regularly as instructed.'',
      ''Report any new or worsening symptoms immediately.'',
      ''Follow discharge instructions carefully to prevent readmission.'']"

definition add_precaution :: "Precaution list \<Rightarrow> string \<Rightarrow> Precaution list" where
  "add_precaution rows txt = rows @ [\<lparr>p_id = next_pk (map p_id rows), p_text = txt\<rparr>]"

definition init_db :: "database \<Rightarrow> database" where
  "init_db d =
     (if length (precautions d) = 0
      then d\<lparr>precautions := foldl add_precaution (precautions d) seed_precautions\<rparr>
      else d)"

section \<open>Precaution selection\<close>

text \<open>
  \<^verbatim>\<open>random.sample(population, k)\<close> raises \<^verbatim>\<open>ValueError\<close> unless \<open>0 \<le> k \<le> n\<close>, and
  otherwise returns \<open>k\<close> elements chosen without replacement. The outcome of the
  generator is an order of the \<open>n\<close> positions of the population (a shuffle,
  \<open>position_order\<close>); the sample is what stands at the first \<open>k\<close> positions of that
  order. Reading a position outside the population is Python's \<^verbatim>\<open>IndexError\<close>.
\<close>

definition position_order :: "nat \<Rightarrow> nat list \<Rightarrow> bool" where
  "position_order n order \<longleftrightarrow>
     length order = n \<and> distinct order \<and> list_all (\<lambda>p. p < n) order"

text \<open>What the first \<open>k\<close> positions of such an order are.\<close>

definition sample_contract :: "nat \<Rightarrow> nat \<Rightarrow> nat list \<Rightarrow> bool" where
  "sample_contract n k picks \<longleftrightarrow>
     length picks = k \<and> distinct picks \<and> list_all (\<lambda>p. p < n) picks"

definition random_sample ::
  "'a list \<Rightarrow> int \<Rightarrow> nat list stream \<Rightarrow> (py_error + 'a list) \<times> nat list stream" where
  "random_sample population k rng =
     (if \<not> (0 \<le> k \<and> k \<le> int (length population)) then (Inl ValueError, rng)
      else (let chosen = take (nat k) (shd rng)
            in if list_all (\<lambda>p. p < length population) chosen
               then (Inr (map (\<lambda>p. population ! p) chosen), stl rng)
               else (Inl IndexError, stl rng)))"

text \<open>Lines 180-181 of app.py.\<close>

definition select_precautions ::
  "database \<Rightarrow> nat list stream \<Rightarrow> (py_error + Precaution list) \<times> nat list stream" where
  "select_precautions d rng =
     (let precautions = precautions d
      in random_sample precautions (min 5 (int (length precautions))) rng)"

section \<open>Advisory suggestions\<close>

definition prompt :: string where
  "prompt = ''Medical advice for reducing hospital stay: ''"

definition fallback_suggestions :: "string list" where
  "fallback_suggestions =
     [''Stay hydrated and follow your treatment plan.'',
      ''Communicate openly with your healthcare team.'',
      ''Get adequate rest to support your recovery.'',
      ''Follow all medication instructions precisely.'',
      ''Report any new symptoms to your nurse immediately.'']"

text \<open>
  \<^verbatim>\<open>s.replace(old, new)\<close>: every occurrence of \<open>old\<close>, found from the left and not
  overlapping, becomes \<open>new\<close>. \<open>skip\<close> counts the characters of a match still to drop.
\<close>

fun py_replace_from :: "string \<Rightarrow> string \<Rightarrow> nat \<Rightarrow> string \<Rightarrow> string" where
  "py_replace_from old new skip [] = (if old = [] then new else [])"
| "py_replace_from old new skip (c # cs) =
     (if 0 < skip then py_replace_from old new (skip - 1) cs
      else if old = [] then new @ c # py_replace_from old new 0 cs
      else if prefix old (c # cs) then new @ py_replace_from old new (length old - 1) cs
      else c # py_replace_from old new 0 cs)"

definition py_replace :: "string \<Rightarrow> string \<Rightarrow> string \<Rightarrow> string" where
  "py_replace old new s = py_replace_from old new 0 s"

text \<open>
  \<^verbatim>\<open>s.strip()\<close>. A \<open>char\<close> is a code point below 256; the whitespace among them, by
  \<^verbatim>\<open>str.isspace\<close>, is U+0009 to U+000D, U+001C to U+001F, the space, U+0085 and U+00A0.
\<close>

definition is_space :: "char \<Rightarrow> bool" where
  "is_space c \<longleftrightarrow>
     c \<in> {CHR '' '', CHR 0x09, CHR 0x0A, CHR 0x0B, CHR 0x0C, CHR 0x0D,
          CHR 0x1C, CHR 0x1D, CHR 0x1E, CHR 0x1F, CHR 0x85, CHR 0xA0}"

definition py_strip :: "string \<Rightarrow> string" where
  "py_strip s = rev (dropWhile is_space (rev (dropWhile is_space s)))"

text \<open>
  The comprehension of line 189: \<^verbatim>\<open>item['generated_text']\<close> raises \<^verbatim>\<open>KeyError\<close> on a
  dictionary without that key.
\<close>

fun generated_texts :: "gen_item list \<Rightarrow> py_error + string list" where
  "generated_texts [] = Inr []"
| "generated_texts (item # items) =
     (case map_of item ''generated_text'' of
        None \<Rightarrow> Inl KeyError
      | Some t \<Rightarrow>
          (case generated_texts items of
             Inl e \<Rightarrow> Inl e
           | Inr ts \<Rightarrow> Inr (py_strip (py_replace prompt [] t) # ts)))"

text \<open>
  Lines 41-45 of app.py: building the pipeline at import time, any failure leaving
  \<^verbatim>\<open>generator = None\<close>.
\<close>

definition init_generator :: "py_error + generator \<Rightarrow> generator option" where
  "init_generator built = (case built of Inl e \<Rightarrow> None | Inr g \<Rightarrow> Some g)"

text \<open>
  Lines 184-201 of app.py. The bare \<^verbatim>\<open>except\<close> catches every exception; the source
  writes the same five strings in the \<^verbatim>\<open>except\<close> branch and in the \<^verbatim>\<open>else\<close> branch.
\<close>

definition generate_suggestions :: "generator option \<Rightarrow> string list" where
  "generate_suggestions gen =
     (case gen of
        None \<Rightarrow> fallback_suggestions
      | Some g \<Rightarrow>
          (case g prompt 5 60 of
             Inl e \<Rightarrow> fallback_suggestions
           | Inr generated \<Rightarrow>
               (case generated_texts generated of
                  Inl e \<Rightarrow> fallback_suggestions
                | Inr suggestions \<Rightarrow> suggestions)))"

section \<open>The views\<close>

text \<open>
  The body of \<^verbatim>\<open>output\<close> (app.py, lines 159-207) for the account \<open>cu\<close> that flask-login
  resolved, at the store's clock reading \<open>now\<close>. An exception that leaves the view is
  the \<open>Inl\<close>; the transaction of a failed request is rolled back.
\<close>

definition output_view ::
  "app \<Rightarrow> session_state \<Rightarrow> int \<Rightarrow> int \<Rightarrow> (py_error + response) \<times> session_state \<times> app" where
  "output_view a sess cu now =
     (case detection_data sess of
        None \<Rightarrow> (Inr (Redirect ''detection''), sess, a)
      | Some patient \<Rightarrow>
          (let (days, np') = predict_stay_length patient (np_random a);
               a1 = a\<lparr>np_random := np'\<rparr>
           in case add_prediction (db a1) cu patient days now of
                Inl e \<Rightarrow> (Inl e, sess, a1)
              | Inr d' \<Rightarrow>
                  (let a2 = a1\<lparr>db := d'\<rparr>;
                       (selected, py') = select_precautions (db a2) (py_random a2);
                       a3 = a2\<lparr>py_random := py'\<rparr>
                   in case selected of
                        Inl e \<Rightarrow> (Inl e, sess, a3)
                      | Inr selected_precautions \<Rightarrow>
                          (Inr (Render_output days selected_precautions
                                  (generate_suggestions (generator a3)) patient),
                           sess, a3))))"

text \<open>
  The route \<^verbatim>\<open>output\<close> (named \<open>output_route\<close> here, \<open>output\<close> being a keyword).
  \<^verbatim>\<open>@login_required\<close> with \<^verbatim>\<open>login_manager.login_view = 'login'\<close>: a request whose session
  names no account that \<^verbatim>\<open>load_user\<close> finds is redirected to the login view.
\<close>

definition output_route ::
  "app \<Rightarrow> session_state \<Rightarrow> int \<Rightarrow> (py_error + response) \<times> session_state \<times> app" where
  "output_route a sess now =
     (case current_user (db a) sess of
        None \<Rightarrow> (Inr (Redirect ''login''), sess, a)
      | Some u \<Rightarrow> output_view a sess (u_id u) now)"

text \<open>\<^verbatim>\<open>main\<close> (app.py, lines 134-138).\<close>

definition main :: "app \<Rightarrow> session_state \<Rightarrow> response" where
  "main a sess =
     (case current_user (db a) sess of
        None \<Rightarrow> Redirect ''login''
      | Some u \<Rightarrow> Render_main u (recent_predictions (db a) (u_id u)))"

text \<open>A sequence of result-view requests, each with its session and clock reading.\<close>

fun run_outputs :: "(session_state \<times> int) list \<Rightarrow> app \<Rightarrow> app" where
  "run_outputs [] a = a"
| "run_outputs ((sess, now) # reqs) a = run_outputs reqs (snd (snd (output_route a sess now)))"

section \<open>The seed listing of the specification\<close>

text \<open>
  The seed data contract as the specification lists it, to compare with
  \<open>seed_precautions\<close>. An entry that the specification ends with an ellipsis is the
  beginning of a string (\<open>True\<close>); the others are whole.
\<close>

definition spec_seed_listing :: "(string \<times> bool) list" where
  "spec_seed_listing =
     [(''Maintain proper hygiene'', True),
      (''Follow all prescribed medication schedules'', True),
      (''Engage in light physical activity'', True),
      (''Ensure adequate hydration and nutrition'', True),
      (''Communicate openly with your care team'', True),
      (''Get sufficient rest'', True),
      (''Keep your environment clean and sanitized.'', False),
      (''Monitor your vital signs regularly'', True),
      (''Report any new or worsening symptoms immediately.'', False),
      (''Follow discharge instructions carefully'', True)]"

definition listed_as :: "string \<times> bool \<Rightarrow> string \<Rightarrow> bool" where
  "listed_as entry s = (if snd entry then prefix (fst entry) s else fst entry = s)"

section \<open>Example states\<close>

definition demo_patient :: patient_data where
  "demo_patient =
     \<lparr>age = 70, severity = ''high'', comorbidities = 3, temperature = ''98.6'',
      blood_pressure = ''120/80'', oxygen_saturation = ''95''\<rparr>"

definition demo_user :: User where
  "demo_user =
     \<lparr>u_id = 1, u_name = ''Ada'', u_email = ''ada@example.org'', u_age = 36,
      u_contact = ''15550100'', u_password_hash = ''x''\<rparr>"

definition demo_session :: session_state where
  "demo_session = \<lparr>login_user_id = Some 1, detection_data = Some demo_patient\<rparr>"

text \<open>The store as the application creates it, before \<^verbatim>\<open>init_db\<close>.\<close>

definition empty_db :: database where
  "empty_db = \<lparr>users = [], precautions = [], predictions = [], foreign_keys = False\<rparr>"

definition demo_db :: database where
  "demo_db = init_db (empty_db\<lparr>users := [demo_user]\<rparr>)"

definition demo_app :: app where
  "demo_app =
     \<lparr>db = demo_db, generator = None, np_random = sconst 0,
      py_random = sconst [0, 1, 2, 3, 4, 5, 6, 7, 8, 9]\<rparr>"

text \<open>A generator whose every call raises.\<close>

definition failing_generator :: generator where
  "failing_generator p n m = Inl (OtherError ''out of memory'')"


text \<open>A store that holds three precautions.\<close>

definition short_db :: database where
  "short_db =
     \<lparr>users = [demo_user], precautions = take 3 (precautions demo_db), predictions = [],
      foreign_keys = False\<rparr>"

text \<open>
  The example process after result-view requests at the clock readings 100 and 160, and
  after two requests that both fall on the clock reading 100.
\<close>

definition demo_app1 :: app where
  "demo_app1 = snd (snd (output_route demo_app demo_session 100))"

definition demo_app2 :: app where
  "demo_app2 = snd (snd (output_route demo_app1 demo_session 160))"

definition demo_tie :: app where
  "demo_tie = snd (snd (output_route demo_app1 demo_session 100))"

text \<open>What the example requests need of a process: the account, the table, the positions.\<close>

definition demo_ready :: "app \<Rightarrow> bool" where
  "demo_ready a \<longleftrightarrow>
     current_user (db a) demo_session = Some demo_user \<and>
     precautions (db a) = precautions demo_db \<and>
     py_random a = sconst [0, 1, 2, 3, 4, 5, 6, 7, 8, 9]"

section \<open>The estimator's formula\<close>

lemma predict_stay_length_value:
  "fst (predict_stay_length patient rng) =
     max 1 (3 + (if age patient > 65 then 2 else 0)
              + (if severity patient = ''high'' then 3
                 else if severity patient = ''medium'' then 1 else 0)
              + (if comorbidities patient > 2 then 2 else 0)
              + shd rng)"
  by (simp add: predict_stay_length_def np_randint_def Let_def)

lemma predict_stay_length_rng:
  "snd (predict_stay_length patient rng) = stl rng"
  by (simp add: predict_stay_length_def np_randint_def Let_def)

lemma randint_range_jitter: "randint_range (- 1) 3 = {- 1, 0, 1, 2}"
  by (auto simp: randint_range_def)

section \<open>The store and the views, step by step\<close>

lemma add_prediction_frame:
  "add_prediction d uid patient days now = Inr d' \<Longrightarrow>
     users d' = users d \<and> precautions d' = precautions d \<and> foreign_keys d' = foreign_keys d \<and>
     (\<exists>r. predictions d' = predictions d @ [r] \<and> predicted_days r = days \<and> user_id r = uid \<and>
          timestamp r = now \<and> r_id r = next_pk (map r_id (predictions d)))"
  by (auto simp: add_prediction_def split: if_splits)

lemma add_prediction_Inl:
  "add_prediction d uid patient days now = Inl e \<longleftrightarrow>
     e = IntegrityError \<and> foreign_keys d \<and> uid \<notin> set (map u_id (users d))"
  by (auto simp: add_prediction_def)

lemma add_prediction_ok:
  "\<not> (foreign_keys d \<and> uid \<notin> set (map u_id (users d))) \<Longrightarrow>
     \<exists>d'. add_prediction d uid patient days now = Inr d'"
  by (auto simp: add_prediction_def)

lemma random_sample_no_ValueError:
  "0 \<le> k \<Longrightarrow> k \<le> int (length population) \<Longrightarrow>
     fst (random_sample population k rng) \<noteq> Inl ValueError"
  by (simp add: random_sample_def Let_def)

lemma select_precautions_no_ValueError:
  "fst (select_precautions d rng) \<noteq> Inl ValueError"
  by (simp add: select_precautions_def Let_def random_sample_def)

lemma list_all_take: "list_all P xs \<Longrightarrow> list_all P (take k xs)"
  by (auto simp: list_all_iff dest: in_set_takeD)

lemma select_precautions_chosen:
  "select_precautions d rng =
     (if list_all (\<lambda>p. p < length (precautions d))
           (take (min 5 (length (precautions d))) (shd rng))
      then (Inr (map (\<lambda>p. precautions d ! p)
                  (take (min 5 (length (precautions d))) (shd rng))), stl rng)
      else (Inl IndexError, stl rng))"
proof -
  have "nat (min 5 (int (length (precautions d)))) = min 5 (length (precautions d))"
    by (simp add: min_def)
  then show ?thesis
    by (simp add: select_precautions_def Let_def random_sample_def)
qed

lemma select_precautions_in_contract:
  "list_all (\<lambda>p. p < length (precautions d)) (shd rng) \<Longrightarrow>
     select_precautions d rng =
       (Inr (map (\<lambda>p. precautions d ! p)
               (take (min 5 (length (precautions d))) (shd rng))), stl rng)"
  by (simp add: select_precautions_chosen list_all_take)

lemma load_user_Some: "load_user d uid = Some u \<Longrightarrow> u \<in> set (users d) \<and> u_id u = uid"
  by (auto simp: load_user_def find_Some_iff)

lemma load_user_None: "load_user d uid = None \<longleftrightarrow> uid \<notin> set (map u_id (users d))"
  by (auto simp: load_user_def find_None_iff)

lemma current_user_Some:
  "current_user d sess = Some u \<Longrightarrow> u_id u \<in> set (map u_id (users d)) \<and> login_user_id sess = Some (u_id u)"
  by (auto simp: current_user_def split: option.splits dest: load_user_Some)

lemma current_user_cong:
  "users d' = users d \<Longrightarrow> current_user d' sess = current_user d sess"
  by (simp add: current_user_def load_user_def split: option.splits)

text \<open>The result view when it runs to the end.\<close>

lemma output_view_render:
  assumes "detection_data sess = Some patient"
    and "\<not> (foreign_keys (db a) \<and> cu \<notin> set (map u_id (users (db a))))"
    and "list_all (\<lambda>p. p < length (precautions (db a))) (shd (py_random a))"
  shows "\<exists>d'. add_prediction (db a) cu patient (fst (predict_stay_length patient (np_random a))) now = Inr d' \<and>
     output_view a sess cu now =
       (Inr (Render_output (fst (predict_stay_length patient (np_random a)))
               (map (\<lambda>p. precautions (db a) ! p)
                  (take (min 5 (length (precautions (db a)))) (shd (py_random a))))
               (generate_suggestions (generator a)) patient),
        sess,
        a\<lparr>db := d', np_random := stl (np_random a), py_random := stl (py_random a)\<rparr>)"
proof -
  obtain d' where d': "add_prediction (db a) cu patient (fst (predict_stay_length patient (np_random a))) now = Inr d'"
    using add_prediction_ok [OF assms(2)] by blast
  have pre: "precautions d' = precautions (db a)"
    using add_prediction_frame [OF d'] by simp
  show ?thesis
    using assms(1,3) d' pre
    by (simp add: output_view_def Let_def split_beta predict_stay_length_rng
        select_precautions_in_contract)
qed

lemma output_view_rejected:
  assumes "detection_data sess = Some patient"
    and "foreign_keys (db a)" and "cu \<notin> set (map u_id (users (db a)))"
  shows "output_view a sess cu now = (Inl IntegrityError, sess, a\<lparr>np_random := stl (np_random a)\<rparr>)"
  using assms
  by (simp add: output_view_def Let_def split_beta predict_stay_length_rng add_prediction_def)

lemma output_view_no_intake:
  "detection_data sess = None \<Longrightarrow> output_view a sess cu now = (Inr (Redirect ''detection''), sess, a)"
  by (simp add: output_view_def)

text \<open>What a rendered result says about the request.\<close>

lemma output_view_Render_D:
  assumes "fst (output_view a sess cu now) = Inr (Render_output days ps sg patient)"
  shows "detection_data sess = Some patient \<and>
         \<not> (foreign_keys (db a) \<and> cu \<notin> set (map u_id (users (db a)))) \<and>
         days = fst (predict_stay_length patient (np_random a)) \<and>
         sg = generate_suggestions (generator a) \<and>
         fst (select_precautions (db a) (py_random a)) = Inr ps"
  using assms
  apply (simp add: output_view_def Let_def split_beta split: option.splits sum.splits)
  apply (auto simp: add_prediction_def select_precautions_def Let_def split: if_splits)
  done

lemma output_route_session: "fst (snd (output_route a sess now)) = sess"
  by (simp add: output_route_def output_view_def Let_def split: option.splits sum.splits prod.splits)

lemma output_view_session: "fst (snd (output_view a sess cu now)) = sess"
  by (simp add: output_view_def Let_def split: option.splits sum.splits prod.splits)

lemma output_view_not_redirect:
  "detection_data sess = Some patient \<Longrightarrow> fst (output_view a sess cu now) \<noteq> Inr (Redirect x)"
  by (simp add: output_view_def Let_def split_beta split: sum.splits)

lemma output_view_created:
  "\<exists>created. predictions (db (snd (snd (output_view a sess cu now)))) = predictions (db a) @ created
      \<and> list_all (\<lambda>r. 1 \<le> predicted_days r \<and> user_id r = cu \<and> timestamp r = now) created
      \<and> users (db (snd (snd (output_view a sess cu now)))) = users (db a)
      \<and> precautions (db (snd (snd (output_view a sess cu now)))) = precautions (db a)
      \<and> foreign_keys (db (snd (snd (output_view a sess cu now)))) = foreign_keys (db a)"
  apply (simp add: output_view_def Let_def split: option.splits sum.splits prod.splits)
  apply (auto simp: predict_stay_length_def np_randint_def Let_def dest!: add_prediction_frame)
  done

lemma output_view_users:
  "users (db (snd (snd (output_view a sess cu now)))) = users (db a)"
  using output_view_created [of a sess cu now] by blast

lemma output_view_owner:
  "\<exists>created. predictions (db (snd (snd (output_view a sess cu now)))) = predictions (db a) @ created
      \<and> list_all (\<lambda>r. user_id r = cu) created"
proof -
  obtain created where c:
    "predictions (db (snd (snd (output_view a sess cu now)))) = predictions (db a) @ created"
    "list_all (\<lambda>r. 1 \<le> predicted_days r \<and> user_id r = cu \<and> timestamp r = now) created"
    using output_view_created [of a sess cu now] by blast
  have "list_all (\<lambda>r. user_id r = cu) created"
    using c(2) by (simp add: list_all_iff)
  then show ?thesis using c(1) by blast
qed

lemma output_route_created:
  "\<exists>created. predictions (db (snd (snd (output_route a sess now)))) = predictions (db a) @ created
      \<and> list_all (\<lambda>r. 1 \<le> predicted_days r) created"
proof (cases "current_user (db a) sess")
  case None
  then show ?thesis by (simp add: output_route_def)
next
  case (Some u)
  obtain created where
    "predictions (db (snd (snd (output_view a sess (u_id u) now)))) = predictions (db a) @ created"
    "list_all (\<lambda>r. 1 \<le> predicted_days r \<and> user_id r = u_id u \<and> timestamp r = now) created"
    using output_view_created [of a sess "u_id u" now] by blast
  then show ?thesis
    using Some by (auto simp: output_route_def list_all_iff)
qed

lemma run_outputs_created:
  "\<exists>created. predictions (db (run_outputs reqs a)) = predictions (db a) @ created
      \<and> list_all (\<lambda>r. 1 \<le> predicted_days r) created"
proof (induction reqs arbitrary: a)
  case Nil
  show ?case by simp
next
  case (Cons req reqs)
  obtain sess now where req: "req = (sess, now)" by (cases req)
  let ?a1 = "snd (snd (output_route a sess now))"
  obtain c1 where c1: "predictions (db ?a1) = predictions (db a) @ c1"
      "list_all (\<lambda>r. 1 \<le> predicted_days r) c1"
    using output_route_created [of a sess now] by blast
  obtain c2 where c2: "predictions (db (run_outputs reqs ?a1)) = predictions (db ?a1) @ c2"
      "list_all (\<lambda>r. 1 \<le> predicted_days r) c2"
    using Cons.IH [of ?a1] by blast
  have "predictions (db (run_outputs (req # reqs) a)) = predictions (db a) @ (c1 @ c2)"
    using c1(1) c2(1) req by simp
  moreover have "list_all (\<lambda>r. 1 \<le> predicted_days r) (c1 @ c2)"
    using c1(2) c2(2) by simp
  ultimately show ?case by blast
qed

lemma output_route_render:
  assumes "current_user (db a) sess = Some u"
    and "detection_data sess = Some patient"
    and "list_all (\<lambda>p. p < length (precautions (db a))) (shd (py_random a))"
  shows "fst (output_route a sess now) =
       Inr (Render_output (fst (predict_stay_length patient (np_random a)))
               (map (\<lambda>p. precautions (db a) ! p)
                  (take (min 5 (length (precautions (db a)))) (shd (py_random a))))
               (generate_suggestions (generator a)) patient)"
proof -
  have "\<not> (foreign_keys (db a) \<and> u_id u \<notin> set (map u_id (users (db a))))"
    using current_user_Some [OF assms(1)] by simp
  from output_view_render [OF assms(2) this assms(3), of now]
  show ?thesis using assms(1) by (auto simp: output_route_def)
qed

lemma output_route_Render_D:
  assumes "output_route a sess now = (Inr (Render_output days ps sg patient), sess', a')"
  shows "\<exists>u. current_user (db a) sess = Some u \<and>
           output_view a sess (u_id u) now = (Inr (Render_output days ps sg patient), sess', a')"
proof (cases "current_user (db a) sess")
  case None
  then show ?thesis using assms by (simp add: output_route_def)
next
  case (Some u)
  then show ?thesis using assms by (simp add: output_route_def)
qed

lemma output_route_unknown:
  assumes "login_user_id sess = Some uid" and "uid \<notin> set (map u_id (users (db a)))"
  shows "output_route a sess now = (Inr (Redirect ''login''), sess, a)"
proof -
  have "load_user (db a) uid = None"
    using assms(2) by (simp add: load_user_None)
  then have "current_user (db a) sess = None"
    using assms(1) by (simp add: current_user_def)
  then show ?thesis by (simp add: output_route_def)
qed

lemma output_route_owner:
  "\<exists>created.
      predictions (db (snd (snd (output_route a sess now)))) = predictions (db a) @ created \<and>
      (\<forall>r \<in> set created. user_id r \<in> set (map u_id (users (db a))))"
proof (cases "current_user (db a) sess")
  case None
  then show ?thesis by (simp add: output_route_def)
next
  case (Some u)
  obtain created where c:
    "predictions (db (snd (snd (output_view a sess (u_id u) now)))) = predictions (db a) @ created"
    "list_all (\<lambda>r. user_id r = u_id u) created"
    using output_view_owner [of a sess "u_id u" now] by blast
  have r: "output_route a sess now = output_view a sess (u_id u) now"
    using Some by (simp add: output_route_def)
  have "u_id u \<in> set (map u_id (users (db a)))"
    using current_user_Some [OF Some] by blast
  then have "\<forall>r \<in> set created. user_id r \<in> set (map u_id (users (db a)))"
    using c(2) by (simp add: list_all_iff)
  then show ?thesis unfolding r using c(1) by blast
qed

lemma select_precautions_rng: "snd (select_precautions d rng) = stl rng"
  by (simp add: select_precautions_chosen)

lemma output_view_Render_record:
  assumes "output_view a sess cu now = (Inr (Render_output days ps sg patient), sess', a')"
  shows "\<exists>r. predictions (db a') = predictions (db a) @ [r] \<and> user_id r = cu \<and>
           timestamp r = now \<and> predicted_days r = days \<and>
           r_id r = next_pk (map r_id (predictions (db a))) \<and>
           users (db a') = users (db a)"
  using assms
  apply (simp add: output_view_def Let_def split_beta split: option.splits sum.splits)
  apply (auto dest!: add_prediction_frame)
  done

lemma output_route_Render_record:
  assumes "output_route a sess now = (Inr (Render_output days ps sg patient), sess', a')"
  shows "\<exists>u r. current_user (db a) sess = Some u \<and> current_user (db a') sess = Some u \<and>
           predictions (db a') = predictions (db a) @ [r] \<and> user_id r = u_id u \<and>
           timestamp r = now \<and> predicted_days r = days \<and>
           r_id r = next_pk (map r_id (predictions (db a)))"
proof -
  obtain u where u: "current_user (db a) sess = Some u"
    and v: "output_view a sess (u_id u) now = (Inr (Render_output days ps sg patient), sess', a')"
    using output_route_Render_D [OF assms] by blast
  obtain r where r: "predictions (db a') = predictions (db a) @ [r]" "user_id r = u_id u"
      "timestamp r = now" "predicted_days r = days"
      "r_id r = next_pk (map r_id (predictions (db a)))" "users (db a') = users (db a)"
    using output_view_Render_record [OF v] by blast
  have "current_user (db a') sess = Some u"
    using u current_user_cong [OF r(6), of sess] by simp
  then show ?thesis using u r(1-5) by blast
qed

lemma output_route_step:
  assumes "current_user (db a) sess = Some u"
    and "detection_data sess = Some patient"
    and "list_all (\<lambda>p. p < length (precautions (db a))) (shd (py_random a))"
  shows "\<exists>days ps sg a'.
           output_route a sess now = (Inr (Render_output days ps sg patient), sess, a') \<and>
           precautions (db a') = precautions (db a) \<and> py_random a' = stl (py_random a)"
proof -
  have fk: "\<not> (foreign_keys (db a) \<and> u_id u \<notin> set (map u_id (users (db a))))"
    using current_user_Some [OF assms(1)] by simp
  obtain d' where d': "add_prediction (db a) (u_id u) patient
        (fst (predict_stay_length patient (np_random a))) now = Inr d'"
    and v: "output_view a sess (u_id u) now =
       (Inr (Render_output (fst (predict_stay_length patient (np_random a)))
               (map (\<lambda>p. precautions (db a) ! p)
                  (take (min 5 (length (precautions (db a)))) (shd (py_random a))))
               (generate_suggestions (generator a)) patient),
        sess,
        a\<lparr>db := d', np_random := stl (np_random a), py_random := stl (py_random a)\<rparr>)"
    using output_view_render [OF assms(2) fk assms(3), of now] by blast
  have "precautions d' = precautions (db a)"
    using add_prediction_frame [OF d'] by simp
  then show ?thesis
    using v assms(1) by (simp add: output_route_def)
qed

lemma foldr_max_upper: "i \<in> set ids \<Longrightarrow> i \<le> foldr max ids (0::int)"
  by (induction ids) auto

lemma next_pk_fresh: "i \<in> set ids \<Longrightarrow> i < next_pk ids"
  using foldr_max_upper [of i ids] by (simp add: next_pk_def)

lemma sort_key_snoc_least:
  fixes f :: "'a \<Rightarrow> int"
  assumes "\<forall>y \<in> set xs. f x < f y"
  shows "sort_key f (xs @ [x]) = x # sort_key f xs"
  using assms
proof (induction xs)
  case Nil
  show ?case by simp
next
  case (Cons y ys)
  then have "sort_key f (ys @ [x]) = x # sort_key f ys" and "f x < f y" by simp_all
  then show ?case by (simp add: sort_key_simps)
qed

lemma recent_predictions_two_new:
  assumes "predictions d' = predictions d @ [x, y]"
    and "user_id x = uid" and "user_id y = uid"
    and "timestamp x < timestamp y"
    and "\<forall>r \<in> set (predictions d). user_id r = uid \<longrightarrow> timestamp r < timestamp x"
  shows "recent_predictions d' uid = y # x # take 3 (recent_predictions d uid)"
proof -
  let ?f = "\<lambda>r. - timestamp r"
  let ?old = "filter (\<lambda>r. user_id r = uid) (predictions d)"
  have f: "filter (\<lambda>r. user_id r = uid) (predictions d') = (?old @ [x]) @ [y]"
    using assms(1-3) by simp
  have ox: "\<forall>r \<in> set ?old. ?f x < ?f r"
    using assms(5) by simp
  have oy: "\<forall>r \<in> set (?old @ [x]). ?f y < ?f r"
    using assms(4,5) by auto
  have "sort_key ?f ((?old @ [x]) @ [y]) = y # sort_key ?f (?old @ [x])"
    using oy by (rule sort_key_snoc_least)
  also have "sort_key ?f (?old @ [x]) = x # sort_key ?f ?old"
    using ox by (rule sort_key_snoc_least)
  finally have "sort_key ?f (filter (\<lambda>r. user_id r = uid) (predictions d')) =
      y # x # sort_key ?f ?old"
    unfolding f .
  then have "recent_predictions d' uid = take 5 (y # x # sort_key ?f ?old)"
    by (simp add: recent_predictions_def)
  also have "\<dots> = y # x # take 3 (sort_key ?f ?old)"
    by (simp add: numeral_eq_Suc)
  also have "take 3 (sort_key ?f ?old) = take 3 (recent_predictions d uid)"
    by (simp add: recent_predictions_def)
  finally show ?thesis .
qed

lemma recent_predictions_sorted:
  "sorted (map (\<lambda>r. - timestamp r) (recent_predictions d uid))"
  by (simp add: recent_predictions_def sorted_wrt_take take_map [symmetric] del: take_map)

lemma init_db_seeds:
  assumes "precautions d = []"
  shows "map p_text (precautions (init_db d)) = seed_precautions"
    and "map p_id (precautions (init_db d)) = [1, 2, 3, 4, 5, 6, 7, 8, 9, 10]"
    and "users (init_db d) = users d" and "predictions (init_db d) = predictions d"
    and "foreign_keys (init_db d) = foreign_keys d"
  using assms
  by (simp_all add: init_db_def seed_precautions_def add_precaution_def next_pk_def)

lemma init_db_seeded: "precautions d \<noteq> [] \<Longrightarrow> init_db d = d"
  by (simp add: init_db_def)

lemma seed_listing: "list_all2 listed_as spec_seed_listing seed_precautions"
  by (simp add: spec_seed_listing_def seed_precautions_def listed_as_def)

lemma seed_distinct: "distinct seed_precautions" "length seed_precautions = 10"
  by (simp_all add: seed_precautions_def)

lemma sample_contract_D:
  "sample_contract n k picks \<Longrightarrow>
     length picks = k \<and> distinct picks \<and> (\<forall>p \<in> set picks. p < n)"
  by (simp add: sample_contract_def list_all_iff)

lemma sampled_distinct:
  assumes "distinct xs" and "distinct picks" and "\<forall>p \<in> set picks. p < length xs"
  shows "distinct (map (\<lambda>p. xs ! p) picks)"
proof -
  have "inj_on (nth xs) (set picks)"
    using assms(1,3) by (rule inj_on_nth)
  then show ?thesis
    using assms(2) by (simp add: distinct_map)
qed

lemma sampled_subset:
  assumes "\<forall>p \<in> set picks. p < length xs"
  shows "set (map (\<lambda>p. xs ! p) picks) \<subseteq> set xs"
  using assms by auto

lemma full_sample_positions:
  assumes "distinct picks" and "\<forall>p \<in> set picks. p < n" and "length picks = n"
  shows "set picks = {..<n}"
proof (rule card_subset_eq)
  show "finite {..<n}" by simp
  show "set picks \<subseteq> {..<n}" using assms(2) by auto
  show "card (set picks) = card {..<n}"
    using assms(1,3) by (simp add: distinct_card)
qed

lemma full_sample_mset:
  assumes "distinct picks" and "\<forall>p \<in> set picks. p < length xs" and "length picks = length xs"
  shows "mset (map (\<lambda>p. xs ! p) picks) = mset xs"
proof -
  have "set picks = set [0..<length xs]"
    using full_sample_positions [OF assms] by (simp add: atLeast_upt)
  then have "mset picks = mset [0..<length xs]"
    using assms(1) distinct_upt set_eq_iff_mset_eq_distinct by blast
  then have "mset (map (\<lambda>p. xs ! p) picks) = mset (map (\<lambda>p. xs ! p) [0..<length xs])"
    by (metis mset_map)
  then show ?thesis by (simp add: map_nth)
qed

lemma positions_of:
  assumes "set sel \<subseteq> set xs"
  shows "\<exists>picks. map (\<lambda>p. xs ! p) picks = sel \<and> (\<forall>p \<in> set picks. p < length xs)"
  using assms
proof (induction sel)
  case Nil
  show ?case by simp
next
  case (Cons x sel)
  obtain picks where ps: "map (\<lambda>p. xs ! p) picks = sel" "\<forall>p \<in> set picks. p < length xs"
    using Cons by auto
  obtain i where i: "i < length xs" "xs ! i = x"
    using Cons.prems by (auto simp: in_set_conv_nth)
  have "map (\<lambda>p. xs ! p) (i # picks) = x # sel \<and> (\<forall>p \<in> set (i # picks). p < length xs)"
    using ps i by simp
  then show ?case by (rule exI [of _ "i # picks"])
qed

lemma position_order_D:
  "position_order n order \<Longrightarrow>
     length order = n \<and> distinct order \<and> (\<forall>p \<in> set order. p < n)"
  by (simp add: position_order_def list_all_iff)

lemma position_order_take:
  assumes "position_order n order" and "k \<le> n"
  shows "sample_contract n k (take k order)"
  using assms
  by (auto simp: position_order_def sample_contract_def list_all_iff dest: in_set_takeD)

lemma sample_contract_le:
  assumes "sample_contract n k ps"
  shows "k \<le> n"
proof -
  have "set ps \<subseteq> {..<n}" and "card (set ps) = k"
    using sample_contract_D [OF assms] by (auto simp: distinct_card)
  then show ?thesis
    using card_mono [of "{..<n}" "set ps"] by simp
qed

text \<open>The orders that begin with given positions: as many as there are orders of the rest.\<close>

lemma orders_with_prefix:
  assumes "sample_contract n k ps"
  shows "card {order. position_order n order \<and> take k order = ps} = fact (n - k)"
proof -
  have ps: "length ps = k" "distinct ps" "\<forall>p \<in> set ps. p < n"
    using sample_contract_D [OF assms] by simp_all
  have kn: "k \<le> n" using assms by (rule sample_contract_le)
  let ?A = "{..<n} - set ps"
  let ?R = "{qs. length qs = n - k \<and> distinct qs \<and> set qs \<subseteq> ?A}"
  have sub: "set ps \<subseteq> {..<n}" using ps(3) by auto
  have cA: "card ?A = n - k"
    using sub ps(1,2) by (simp add: card_Diff_subset distinct_card)
  have eq: "{order. position_order n order \<and> take k order = ps} = (\<lambda>qs. ps @ qs) ` ?R"
  proof (intro set_eqI iffI)
    fix order
    assume "order \<in> {order. position_order n order \<and> take k order = ps}"
    then have o: "length order = n" "distinct order" "\<forall>p \<in> set order. p < n"
      and t: "take k order = ps"
      by (auto dest: position_order_D)
    have split: "order = ps @ drop k order"
      using t append_take_drop_id [of k order] by simp
    have "distinct (ps @ drop k order)" and "\<forall>p \<in> set (ps @ drop k order). p < n"
      using o(2,3) split by simp_all
    then have "drop k order \<in> ?R"
      using o(1) by auto
    then show "order \<in> (\<lambda>qs. ps @ qs) ` ?R"
      using split by blast
  next
    fix order
    assume "order \<in> (\<lambda>qs. ps @ qs) ` ?R"
    then obtain qs where q: "order = ps @ qs" "length qs = n - k" "distinct qs" "set qs \<subseteq> ?A"
      by blast
    have "position_order n order"
      using q ps kn by (auto simp: position_order_def list_all_iff)
    moreover have "take k order = ps"
      using q(1) ps(1) by simp
    ultimately show "order \<in> {order. position_order n order \<and> take k order = ps}"
      by simp
  qed
  have "card ((\<lambda>qs. ps @ qs) ` ?R) = card ?R"
    by (rule card_image) (simp add: inj_on_def)
  also have "\<dots> = \<Prod>{card ?A - (n - k) + 1 .. card ?A}"
    by (rule card_lists_distinct_length_eq) (simp_all add: cA)
  also have "\<dots> = fact (n - k)"
    by (simp add: cA fact_prod)
  finally show ?thesis
    unfolding eq .
qed

lemma sampled_eq_iff:
  assumes "distinct xs" and "\<forall>p \<in> set ps. p < length xs" and "\<forall>p \<in> set qs. p < length xs"
  shows "map (\<lambda>p. xs ! p) ps = map (\<lambda>p. xs ! p) qs \<longleftrightarrow> ps = qs"
proof
  assume e: "map (\<lambda>p. xs ! p) ps = map (\<lambda>p. xs ! p) qs"
  have "\<forall>i \<in> set ps \<union> set qs. i < length xs"
    using assms(2,3) by auto
  with assms(1) have "inj_on (nth xs) (set ps \<union> set qs)"
    by (rule inj_on_nth)
  with e show "ps = qs" by (rule map_inj_on)
qed simp

lemma select_precautions_order:
  assumes "position_order (length (precautions d)) order"
  shows "select_precautions d (order ## rng) =
     (Inr (map (\<lambda>p. precautions d ! p) (take (min 5 (length (precautions d))) order)), rng)"
proof -
  have "list_all (\<lambda>p. p < length (precautions d)) (shd (order ## rng))"
    using assms by (simp add: position_order_def)
  then show ?thesis
    using select_precautions_in_contract [of d "order ## rng"] by simp
qed

lemma select_precautions_fibre:
  assumes "distinct (precautions d)"
    and "length sel = min 5 (length (precautions d))" and "distinct sel"
    and "set sel \<subseteq> set (precautions d)"
  shows "card {order. position_order (length (precautions d)) order \<and>
                 fst (select_precautions d (order ## rng)) = Inr sel} =
         fact (length (precautions d) - min 5 (length (precautions d)))"
proof -
  let ?xs = "precautions d"
  let ?n = "length ?xs"
  let ?k = "min 5 ?n"
  obtain ps where ps: "map (\<lambda>p. ?xs ! p) ps = sel" "\<forall>p \<in> set ps. p < ?n"
    using positions_of [OF assms(4)] by blast
  have "distinct ps"
    using assms(3) ps(1) distinct_map by blast
  moreover have "length ps = ?k"
    using assms(2) ps(1) by auto
  ultimately have c: "sample_contract ?n ?k ps"
    using ps(2) by (simp add: sample_contract_def list_all_iff)
  have "{order. position_order ?n order \<and> fst (select_precautions d (order ## rng)) = Inr sel} =
        {order. position_order ?n order \<and> take ?k order = ps}"
  proof (intro set_eqI iffI)
    fix order
    assume "order \<in> {order. position_order ?n order \<and>
        fst (select_precautions d (order ## rng)) = Inr sel}"
    then have o: "position_order ?n order"
      and r: "fst (select_precautions d (order ## rng)) = Inr sel" by simp_all
    have "map (\<lambda>p. ?xs ! p) (take ?k order) = map (\<lambda>p. ?xs ! p) ps"
      using r ps(1) by (simp add: select_precautions_order [OF o])
    moreover have "\<forall>p \<in> set (take ?k order). p < ?n"
      using position_order_D [OF o] by (auto dest: in_set_takeD)
    ultimately have "take ?k order = ps"
      using sampled_eq_iff [OF assms(1) _ ps(2)] by blast
    then show "order \<in> {order. position_order ?n order \<and> take ?k order = ps}"
      using o by simp
  next
    fix order
    assume "order \<in> {order. position_order ?n order \<and> take ?k order = ps}"
    then have o: "position_order ?n order" and t: "take ?k order = ps" by simp_all
    have "fst (select_precautions d (order ## rng)) = Inr sel"
      by (simp add: select_precautions_order [OF o] t ps(1))
    then show "order \<in> {order. position_order ?n order \<and>
        fst (select_precautions d (order ## rng)) = Inr sel}"
      using o by simp
  qed
  then show ?thesis
    using orders_with_prefix [OF c] by simp
qed

lemma select_precautions_bounds:
  assumes "fst (select_precautions d rng) = Inr sel"
  shows "length sel \<le> min 5 (length (precautions d)) \<and> set sel \<subseteq> set (precautions d)"
proof (cases "list_all (\<lambda>p. p < length (precautions d))
                (take (min 5 (length (precautions d))) (shd rng))")
  case True
  define chosen where "chosen = take (min 5 (length (precautions d))) (shd rng)"
  have ok: "list_all (\<lambda>p. p < length (precautions d)) chosen"
    using True by (simp only: chosen_def)
  have "select_precautions d rng = (Inr (map (\<lambda>p. precautions d ! p) chosen), stl rng)"
    unfolding chosen_def select_precautions_chosen [of d rng] using True by (simp only: if_True)
  then have "Inr (map (\<lambda>p. precautions d ! p) chosen) = (Inr sel :: py_error + Precaution list)"
    using assms by (simp only: fst_conv)
  then have sel: "sel = map (\<lambda>p. precautions d ! p) chosen"
    by (simp only: sum.inject)
  have "\<forall>p \<in> set chosen. p < length (precautions d)"
    using ok by (simp only: list_all_iff)
  then have "set (map (\<lambda>p. precautions d ! p) chosen) \<subseteq> set (precautions d)"
    by (rule sampled_subset)
  then have s: "set sel \<subseteq> set (precautions d)"
    by (simp only: sel)
  have "length chosen \<le> min 5 (length (precautions d))"
    unfolding chosen_def by (metis length_take min.cobounded2)
  then have l: "length sel \<le> min 5 (length (precautions d))"
    by (simp only: sel length_map)
  show ?thesis using l s by (rule conjI)
next
  case False
  have "select_precautions d rng = (Inl IndexError, stl rng)"
    unfolding select_precautions_chosen [of d rng] using False by (simp only: if_False)
  then have "fst (select_precautions d rng) = Inl IndexError"
    by (simp only: fst_conv)
  then show ?thesis using assms by simp
qed

lemma recent_predictions_length: "length (recent_predictions d uid) \<le> 5"
  by (simp add: recent_predictions_def)

lemma recent_predictions_subset:
  "set (recent_predictions d uid) \<subseteq> {r \<in> set (predictions d). user_id r = uid}"
proof -
  have "set (recent_predictions d uid) \<subseteq>
        set (sort_key (\<lambda>r. - timestamp r) (filter (\<lambda>r. user_id r = uid) (predictions d)))"
    unfolding recent_predictions_def by (rule set_take_subset)
  then show ?thesis by auto
qed

text \<open>
  Two rendered requests of one session: the two new records, and the lookup when the
  clock readings strictly increase.
\<close>

lemma two_runs_history:
  assumes "output_route a sess t1 = (Inr (Render_output d1 ps1 sg1 p1), s1, a1)"
    and "output_route a1 sess t2 = (Inr (Render_output d2 ps2 sg2 p2), s2, a2)"
  shows "\<exists>u x y.
      current_user (db a2) sess = Some u \<and>
      predictions (db a2) = predictions (db a) @ [x, y] \<and>
      r_id x < r_id y \<and>
      r_id x \<notin> set (map r_id (predictions (db a))) \<and>
      r_id y \<notin> set (map r_id (predictions (db a))) \<and>
      user_id x = u_id u \<and> user_id y = u_id u \<and>
      timestamp x = t1 \<and> timestamp y = t2 \<and>
      (t1 \<le> t2 \<longrightarrow> timestamp x \<le> timestamp y) \<and>
      sorted (map (\<lambda>r. - timestamp r) (recent_predictions (db a2) (u_id u))) \<and>
      (t1 < t2 \<and> (\<forall>r \<in> set (predictions (db a)). user_id r = u_id u \<longrightarrow> timestamp r < t1) \<longrightarrow>
         main a2 sess = Render_main u (y # x # take 3 (recent_predictions (db a) (u_id u))))"
proof -
  obtain u x where x: "current_user (db a) sess = Some u" "current_user (db a1) sess = Some u"
      "predictions (db a1) = predictions (db a) @ [x]" "user_id x = u_id u"
      "timestamp x = t1" "r_id x = next_pk (map r_id (predictions (db a)))"
    using output_route_Render_record [OF assms(1)] by blast
  obtain u' y where y: "current_user (db a1) sess = Some u'" "current_user (db a2) sess = Some u'"
      "predictions (db a2) = predictions (db a1) @ [y]" "user_id y = u_id u'"
      "timestamp y = t2" "r_id y = next_pk (map r_id (predictions (db a1)))"
    using output_route_Render_record [OF assms(2)] by blast
  have u': "u' = u" using x(2) y(1) by simp
  have cu: "current_user (db a2) sess = Some u" using y(2) u' by simp
  have ps: "predictions (db a2) = predictions (db a) @ [x, y]"
    using x(3) y(3) by simp
  have fx: "\<forall>i \<in> set (map r_id (predictions (db a))). i < r_id x"
    unfolding x(6) using next_pk_fresh by blast
  have fy: "\<forall>i \<in> set (map r_id (predictions (db a1))). i < r_id y"
    unfolding y(6) using next_pk_fresh by blast
  have lt: "r_id x < r_id y"
    using fy x(3) by simp
  have nx: "r_id x \<notin> set (map r_id (predictions (db a)))"
    using fx by blast
  have ny: "r_id y \<notin> set (map r_id (predictions (db a)))"
    using fy x(3) by auto
  have mono: "t1 \<le> t2 \<longrightarrow> timestamp x \<le> timestamp y"
    using x(5) y(5) by simp
  have srt: "sorted (map (\<lambda>r. - timestamp r) (recent_predictions (db a2) (u_id u)))"
    by (rule recent_predictions_sorted)
  have top: "t1 < t2 \<and> (\<forall>r \<in> set (predictions (db a)). user_id r = u_id u \<longrightarrow> timestamp r < t1) \<longrightarrow>
         main a2 sess = Render_main u (y # x # take 3 (recent_predictions (db a) (u_id u)))"
  proof
    assume h: "t1 < t2 \<and> (\<forall>r \<in> set (predictions (db a)). user_id r = u_id u \<longrightarrow> timestamp r < t1)"
    have yu: "user_id y = u_id u" using y(4) u' by simp
    have txy: "timestamp x < timestamp y" using h x(5) y(5) by simp
    have old: "\<forall>r \<in> set (predictions (db a)). user_id r = u_id u \<longrightarrow> timestamp r < timestamp x"
      using h x(5) by simp
    have "recent_predictions (db a2) (u_id u) = y # x # take 3 (recent_predictions (db a) (u_id u))"
      using ps x(4) yu txy old by (rule recent_predictions_two_new)
    then show "main a2 sess = Render_main u (y # x # take 3 (recent_predictions (db a) (u_id u)))"
      using cu by (simp add: main_def)
  qed
  have yu: "user_id y = u_id u" using y(4) u' by simp
  show ?thesis
    using cu ps lt nx ny x(4) yu x(5) y(5) mono srt top
    by (intro exI [of _ u] exI [of _ x] exI [of _ y] conjI) assumption+
qed

section \<open>The example states, evaluated\<close>

lemma demo_db_users:
  "users demo_db = [demo_user]" "predictions demo_db = []" "\<not> foreign_keys demo_db"
  by (simp_all add: demo_db_def init_db_def empty_db_def)

lemma demo_db_precautions:
  "map p_id (precautions demo_db) = [1, 2, 3, 4, 5, 6, 7, 8, 9, 10]"
  "map p_text (precautions demo_db) = seed_precautions"
  "length (precautions demo_db) = 10"
  by (simp_all add: demo_db_def init_db_def empty_db_def seed_precautions_def add_precaution_def next_pk_def)

lemmas demo_simps =
  output_route_def current_user_def load_user_def demo_app_def demo_session_def
  demo_db_users demo_user_def output_view_def Let_def split_beta predict_stay_length_value
  predict_stay_length_rng add_prediction_def demo_patient_def select_precautions_def
  random_sample_def demo_db_precautions generate_suggestions_def next_pk_def

lemma demo_run:
  "fst (output_route demo_app demo_session 100) =
     Inr (Render_output 10 (take 5 (precautions demo_db)) fallback_suggestions demo_patient)"
  apply (simp add: output_route_def current_user_def load_user_def demo_app_def demo_session_def demo_db_users demo_user_def)
  apply (simp add: output_view_def Let_def split_beta predict_stay_length_value predict_stay_length_rng add_prediction_def demo_db_users demo_user_def demo_patient_def select_precautions_def random_sample_def demo_db_precautions generate_suggestions_def)
  apply (simp add: demo_db_def init_db_def empty_db_def seed_precautions_def add_precaution_def next_pk_def)
  done

lemma demo_run_full:
  "output_route demo_app demo_session 100 =
     (Inr (Render_output 10 (take 5 (precautions demo_db)) fallback_suggestions demo_patient),
      demo_session, snd (snd (output_route demo_app demo_session 100)))"
proof -
  have "output_route demo_app demo_session 100 =
     (fst (output_route demo_app demo_session 100),
      fst (snd (output_route demo_app demo_session 100)),
      snd (snd (output_route demo_app demo_session 100)))"
    by simp
  then show ?thesis
    unfolding demo_run output_route_session .
qed


lemma short_db_precautions:
  "length (precautions short_db) = 3" "map p_id (precautions short_db) = [1, 2, 3]"
  by (simp_all add: short_db_def demo_db_def init_db_def empty_db_def seed_precautions_def
      add_precaution_def next_pk_def)

lemma demo_ready_start: "demo_ready demo_app"
  by (simp add: demo_ready_def current_user_def load_user_def demo_app_def demo_session_def
      demo_db_users demo_user_def)

lemma demo_ready_step:
  assumes "demo_ready a"
  shows "\<exists>days ps sg r.
      output_route a demo_session now =
        (Inr (Render_output days ps sg demo_patient), demo_session,
         snd (snd (output_route a demo_session now))) \<and>
      demo_ready (snd (snd (output_route a demo_session now))) \<and>
      predictions (db (snd (snd (output_route a demo_session now)))) = predictions (db a) @ [r] \<and>
      user_id r = 1 \<and> timestamp r = now \<and> r_id r = next_pk (map r_id (predictions (db a)))"
proof -
  have u: "current_user (db a) demo_session = Some demo_user"
    and p: "precautions (db a) = precautions demo_db"
    and y: "py_random a = sconst [0, 1, 2, 3, 4, 5, 6, 7, 8, 9]"
    using assms by (simp_all add: demo_ready_def)
  have i: "detection_data demo_session = Some demo_patient"
    by (simp add: demo_session_def)
  have c: "list_all (\<lambda>p. p < length (precautions (db a))) (shd (py_random a))"
    by (simp add: p y demo_db_precautions)
  obtain days ps sg a' where
    o: "output_route a demo_session now =
          (Inr (Render_output days ps sg demo_patient), demo_session, a')"
    and f: "precautions (db a') = precautions (db a)" "py_random a' = stl (py_random a)"
    using output_route_step [OF u i c, of now] by blast
  obtain u' r where r: "current_user (db a) demo_session = Some u'"
      "current_user (db a') demo_session = Some u'"
      "predictions (db a') = predictions (db a) @ [r]" "user_id r = u_id u'"
      "timestamp r = now" "r_id r = next_pk (map r_id (predictions (db a)))"
    using output_route_Render_record [OF o] by blast
  have u': "u' = demo_user" using r(1) u by simp
  have a': "snd (snd (output_route a demo_session now)) = a'" by (simp add: o)
  have "demo_ready a'"
    using r(2) f p y by (simp add: demo_ready_def u')
  moreover have "user_id r = 1" using r(4) by (simp add: u' demo_user_def)
  ultimately show ?thesis
    unfolding a' using o r(3,5,6) by blast
qed

lemma demo_ready_user: "demo_ready a \<Longrightarrow> current_user (db a) demo_session = Some demo_user"
  by (simp add: demo_ready_def)

lemma demo_app1_facts:
  "demo_ready demo_app1" "map r_id (predictions (db demo_app1)) = [1]"
  "map timestamp (predictions (db demo_app1)) = [100]"
  "map user_id (predictions (db demo_app1)) = [1]"
proof -
  obtain r where r: "demo_ready demo_app1" "predictions (db demo_app1) = predictions (db demo_app) @ [r]"
    "user_id r = 1" "timestamp r = 100" "r_id r = next_pk (map r_id (predictions (db demo_app)))"
    using demo_ready_step [OF demo_ready_start, of 100] unfolding demo_app1_def by blast
  have e: "predictions (db demo_app) = []" by (simp add: demo_app_def demo_db_users)
  show "demo_ready demo_app1" by (rule r(1))
  show "map r_id (predictions (db demo_app1)) = [1]" using r(2,5) by (simp add: e next_pk_def)
  show "map timestamp (predictions (db demo_app1)) = [100]" using r(2,4) by (simp add: e)
  show "map user_id (predictions (db demo_app1)) = [1]" using r(2,3) by (simp add: e)
qed

lemma demo_app1_row:
  "\<exists>r0. predictions (db demo_app1) = [r0] \<and> r_id r0 = 1 \<and> timestamp r0 = 100 \<and> user_id r0 = 1"
  using demo_app1_facts(2,3,4) by (cases "predictions (db demo_app1)") auto

lemma demo_app1_days: "map predicted_days (predictions (db demo_app1)) = [10]"
  by (simp add: demo_app1_def demo_simps)


section \<open>Claims about the estimator\<close>

text \<open>
  C1. For every intake with age in 1..120, severity low, medium or high and comorbidity
  count in 0..10, and every jitter drawn by \<^verbatim>\<open>np.random.randint(-1, 3)\<close>, that is from
  \<open>{-1, 0, 1, 2}\<close>, the estimator returns \<open>max 1 (base + jitter)\<close>, where \<open>base\<close> is 3, plus 2
  if the age exceeds 65, plus 3 for high and 1 for medium severity, plus 2 if the
  comorbidity count exceeds 2. With jitter 0, age 70, high severity and 3 comorbidities
  give 10.
\<close>

theorem C1_estimator_formula:
  assumes "1 \<le> age patient" and "age patient \<le> 120"
    and "severity patient \<in> {''low'', ''medium'', ''high''}"
    and "0 \<le> comorbidities patient" and "comorbidities patient \<le> 10"
    and "shd rng \<in> randint_range (- 1) 3"
  shows "randint_range (- 1) 3 = {- 1, 0, 1, 2} \<and>
    fst (predict_stay_length patient rng) =
      max 1 (3 + (if age patient > 65 then 2 else 0)
               + (if severity patient = ''high'' then 3
                  else if severity patient = ''medium'' then 1 else 0)
               + (if comorbidities patient > 2 then 2 else 0)
               + shd rng) \<and>
    fst (predict_stay_length
           \<lparr>age = 70, severity = ''high'', comorbidities = 3, temperature = t,
            blood_pressure = b, oxygen_saturation = s\<rparr> (0 ## rng)) = 10"
proof -
  have "fst (predict_stay_length
           \<lparr>age = 70, severity = ''high'', comorbidities = 3, temperature = t,
            blood_pressure = b, oxygen_saturation = s\<rparr> (0 ## rng)) = 10"
    by (simp add: predict_stay_length_value)
  then show ?thesis
    using predict_stay_length_value [of patient rng] randint_range_jitter by simp
qed

theorem C1_estimator_formula_witness:
  "age demo_patient = 70 \<and> severity demo_patient = ''high'' \<and>
   comorbidities demo_patient = 3 \<and> shd (sconst (0::int)) = 0 \<and>
   fst (predict_stay_length demo_patient (sconst 0)) = 10"
  using C1_estimator_formula [of demo_patient "sconst 0"]
  by (simp add: demo_patient_def randint_range_jitter)

text \<open>
  C10. The estimator reads only age, severity and comorbidity count: two intakes that
  agree on these three fields, whatever their temperature, blood pressure and oxygen
  saturation, get the same day count (and leave the same generator state) for the same
  jitter draw.
\<close>

theorem C10_estimator_ignores_vitals:
  assumes "age p = age q" and "severity p = severity q"
    and "comorbidities p = comorbidities q"
  shows "predict_stay_length p rng = predict_stay_length q rng"
  using assms by (simp add: predict_stay_length_def)

theorem C10_estimator_ignores_vitals_witness:
  "temperature (demo_patient\<lparr>temperature := ''104.2''\<rparr>) \<noteq> temperature demo_patient \<and>
   predict_stay_length
     (demo_patient\<lparr>temperature := ''104.2'', blood_pressure := ''90/60'',
        oxygen_saturation := ''88''\<rparr>) (sconst 2) =
   predict_stay_length demo_patient (sconst 2)"
  using C10_estimator_ignores_vitals
    [of "demo_patient\<lparr>temperature := ''104.2'', blood_pressure := ''90/60'',
           oxygen_saturation := ''88''\<rparr>" demo_patient "sconst 2"]
  by (simp add: demo_patient_def)

text \<open>
  C2. For every valid intake and every jitter in \<open>{-1, 0, 1, 2}\<close> the estimator's result is
  at least 1. Every record that a sequence of result-view requests adds to the store has
  a predicted day count of at least 1, so a store whose records satisfy this keeps
  satisfying it.
\<close>

theorem C2_predicted_days_positive:
  "(valid_intake patient \<and> shd rng \<in> randint_range (- 1) 3 \<longrightarrow>
      1 \<le> fst (predict_stay_length patient rng)) \<and>
   (\<exists>created.
      predictions (db (run_outputs reqs a)) = predictions (db a) @ created \<and>
      (\<forall>r \<in> set created. 1 \<le> predicted_days r)) \<and>
   ((\<forall>r \<in> set (predictions (db a)). 1 \<le> predicted_days r) \<longrightarrow>
      (\<forall>r \<in> set (predictions (db (run_outputs reqs a))). 1 \<le> predicted_days r))"
proof -
  have est: "1 \<le> fst (predict_stay_length patient rng)"
    by (simp add: predict_stay_length_value)
  obtain created where c: "predictions (db (run_outputs reqs a)) = predictions (db a) @ created"
      "list_all (\<lambda>r. 1 \<le> predicted_days r) created"
    using run_outputs_created [of reqs a] by blast
  have new: "\<forall>r \<in> set created. 1 \<le> predicted_days r"
    using c(2) by (simp add: list_all_iff)
  have inv: "(\<forall>r \<in> set (predictions (db a)). 1 \<le> predicted_days r) \<longrightarrow>
      (\<forall>r \<in> set (predictions (db (run_outputs reqs a))). 1 \<le> predicted_days r)"
    using c(1) new by auto
  show ?thesis using est c(1) new inv by blast
qed

theorem C2_predicted_days_positive_witness:
  "valid_intake demo_patient \<and> shd (sconst (0::int)) \<in> randint_range (- 1) 3 \<and>
   1 \<le> fst (predict_stay_length demo_patient (sconst 0)) \<and>
   map predicted_days (predictions (db demo_app1)) = [10] \<and>
   run_outputs [(demo_session, 160)] demo_app1 = demo_app2 \<and>
   length (predictions (db demo_app2)) = 2 \<and>
   list_all (\<lambda>r. 1 \<le> predicted_days r) (predictions (db demo_app2))"
proof -
  have v: "valid_intake demo_patient"
    by (simp add: valid_intake_def demo_patient_def)
  have j: "shd (sconst (0::int)) \<in> randint_range (- 1) 3"
    by (simp add: randint_range_jitter)
  obtain r0 where r0: "predictions (db demo_app1) = [r0]" "predicted_days r0 = 10"
    using demo_app1_days by (cases "predictions (db demo_app1)") auto
  have inv: "\<forall>r \<in> set (predictions (db demo_app1)). 1 \<le> predicted_days r"
    by (simp add: r0)
  have run: "run_outputs [(demo_session, 160)] demo_app1 = demo_app2"
    by (simp add: demo_app2_def)
  obtain r where "predictions (db demo_app2) = predictions (db demo_app1) @ [r]"
    using demo_ready_step [OF demo_app1_facts(1), of 160] unfolding demo_app2_def by blast
  then have len: "length (predictions (db demo_app2)) = 2"
    by (simp add: r0)
  have "1 \<le> fst (predict_stay_length demo_patient (sconst 0))"
    and "\<forall>r \<in> set (predictions (db (run_outputs [(demo_session, 160)] demo_app1))).
           1 \<le> predicted_days r"
    using C2_predicted_days_positive
      [of demo_patient "sconst 0" "[(demo_session, 160)]" demo_app1] v j inv by blast+
  then show ?thesis
    using v j demo_app1_days len unfolding run by (simp add: list_all_iff)
qed

section \<open>Claims about the result view\<close>

text \<open>
  C6. A result-view request whose session holds no intake is answered by a redirect to
  the intake form: the view returns normally (no exception), and the process is left as
  it was, so no jitter was drawn (the estimator did not run) and no record was written.
\<close>

theorem C6_missing_intake_redirects:
  assumes "detection_data sess = None"
  shows "output_view a sess cu now = (Inr (Redirect ''detection''), sess, a) \<and>
    (current_user (db a) sess \<noteq> None \<longrightarrow>
       output_route a sess now = (Inr (Redirect ''detection''), sess, a)) \<and>
    snd (snd (output_route a sess now)) = a \<and>
    (\<forall>e. fst (output_route a sess now) \<noteq> Inl e)"
  using assms
  by (auto simp: output_route_def output_view_no_intake split: option.splits)

theorem C6_missing_intake_redirects_witness:
  "detection_data (demo_session\<lparr>detection_data := None\<rparr>) = None \<and>
   current_user (db demo_app) (demo_session\<lparr>detection_data := None\<rparr>) = Some demo_user \<and>
   output_route demo_app (demo_session\<lparr>detection_data := None\<rparr>) 100 =
     (Inr (Redirect ''detection''), demo_session\<lparr>detection_data := None\<rparr>, demo_app) \<and>
   np_random (snd (snd (output_route demo_app (demo_session\<lparr>detection_data := None\<rparr>) 100))) =
     np_random demo_app \<and>
   predictions (db (snd (snd (output_route demo_app (demo_session\<lparr>detection_data := None\<rparr>) 100)))) = []"
proof -
  have n: "detection_data (demo_session\<lparr>detection_data := None\<rparr>) = None" by simp
  have u: "current_user (db demo_app) (demo_session\<lparr>detection_data := None\<rparr>) = Some demo_user"
    by (simp add: current_user_def load_user_def demo_app_def demo_session_def demo_db_users
        demo_user_def)
  have e: "predictions (db demo_app) = []"
    by (simp add: demo_app_def demo_db_users)
  show ?thesis
    using C6_missing_intake_redirects [OF n, of demo_app 1 100] u e by simp
qed

text \<open>
  C3. When the generator could not be built at startup, or its call raises, or reading
  its result raises, the suggestions are exactly the five fixed fallback strings, in
  order. The response and the store are those of a process without any generator: the
  failure does not leave the view, and a logged-in request with an intake is rendered.
\<close>

theorem C3_fallback_suggestions:
  assumes "generator a = init_generator (Inl e0) \<or>
           (generator a = Some g \<and> g prompt 5 60 = Inl e1) \<or>
           (generator a = Some g \<and> g prompt 5 60 = Inr items \<and> generated_texts items = Inl e2)"
  shows "generate_suggestions (generator a) =
      [''Stay hydrated and follow your treatment plan.'',
       ''Communicate openly with your healthcare team.'',
       ''Get adequate rest to support your recovery.'',
       ''Follow all medication instructions precisely.'',
       ''Report any new symptoms to your nurse immediately.''] \<and>
    length (generate_suggestions (generator a)) = 5 \<and>
    fst (output_route a sess now) = fst (output_route (a\<lparr>generator := None\<rparr>) sess now) \<and>
    db (snd (snd (output_route a sess now))) =
      db (snd (snd (output_route (a\<lparr>generator := None\<rparr>) sess now))) \<and>
    (current_user (db a) sess \<noteq> None \<and> detection_data sess = Some patient \<and>
     list_all (\<lambda>p. p < length (precautions (db a))) (shd (py_random a)) \<longrightarrow>
       (\<exists>days ps. fst (output_route a sess now) =
          Inr (Render_output days ps (generate_suggestions (generator a)) patient)))"
proof -
  have fb: "generate_suggestions (generator a) = fallback_suggestions"
    using assms by (auto simp: generate_suggestions_def init_generator_def)
  have none: "generate_suggestions None = fallback_suggestions"
    by (simp add: generate_suggestions_def)
  have v1: "fst (output_view a sess cu now) = fst (output_view (a\<lparr>generator := None\<rparr>) sess cu now)" for cu
    using fb none
    by (simp add: output_view_def Let_def split_beta split: option.splits sum.splits)
  have v2: "db (snd (snd (output_view a sess cu now))) =
            db (snd (snd (output_view (a\<lparr>generator := None\<rparr>) sess cu now)))" for cu
    by (simp add: output_view_def Let_def split_beta split: option.splits sum.splits)
  have r1: "fst (output_route a sess now) = fst (output_route (a\<lparr>generator := None\<rparr>) sess now)"
    using v1 by (simp add: output_route_def split: option.splits)
  have r2: "db (snd (snd (output_route a sess now))) =
      db (snd (snd (output_route (a\<lparr>generator := None\<rparr>) sess now)))"
    using v2 by (simp add: output_route_def split: option.splits)
  have s: "current_user (db a) sess \<noteq> None \<and> detection_data sess = Some patient \<and>
     list_all (\<lambda>p. p < length (precautions (db a))) (shd (py_random a)) \<longrightarrow>
       (\<exists>days ps. fst (output_route a sess now) =
          Inr (Render_output days ps (generate_suggestions (generator a)) patient))"
    using output_route_render [of a sess _ patient now] by blast
  show ?thesis
    using fb r1 r2 s by (simp add: fallback_suggestions_def)
qed

theorem C3_fallback_suggestions_witness:
  "failing_generator prompt 5 60 = Inl (OtherError ''out of memory'') \<and>
   generate_suggestions (Some failing_generator) = fallback_suggestions \<and>
   fst (output_route (demo_app\<lparr>generator := Some failing_generator\<rparr>) demo_session 100) =
     Inr (Render_output 10 (take 5 (precautions demo_db)) fallback_suggestions demo_patient)"
proof -
  have f: "failing_generator prompt 5 60 = Inl (OtherError ''out of memory'')"
    by (simp add: failing_generator_def)
  have g: "generator (demo_app\<lparr>generator := Some failing_generator\<rparr>) = Some failing_generator"
    by simp
  have n: "(demo_app\<lparr>generator := Some failing_generator\<rparr>)\<lparr>generator := None\<rparr> = demo_app"
    by (simp add: demo_app_def)
  have "generate_suggestions (Some failing_generator) = fallback_suggestions"
    and "fst (output_route (demo_app\<lparr>generator := Some failing_generator\<rparr>) demo_session 100) =
         fst (output_route demo_app demo_session 100)"
    using C3_fallback_suggestions
      [of "demo_app\<lparr>generator := Some failing_generator\<rparr>" KeyError failing_generator
          "OtherError ''out of memory''" "[]" KeyError demo_session 100 demo_patient]
      f n by (simp_all add: fallback_suggestions_def)
  then show ?thesis using f demo_run by simp
qed

text \<open>
  C9. A rendered result leaves the session as it was: the intake is still there, and a
  repeated request with that session is not redirected; it is rendered again with the
  same intake (whenever the sampled positions lie within the precaution table).
\<close>

theorem C9_session_kept:
  assumes "output_route a sess now = (Inr (Render_output days ps sg patient), sess', a')"
  shows "sess' = sess \<and> detection_data sess' = Some patient \<and>
    fst (output_route a' sess' now') \<noteq> Inr (Redirect ''detection'') \<and>
    fst (output_route a' sess' now') \<noteq> Inr (Redirect ''login'') \<and>
    (list_all (\<lambda>p. p < length (precautions (db a'))) (shd (py_random a')) \<longrightarrow>
       (\<exists>days' ps' sg'. fst (output_route a' sess' now') =
          Inr (Render_output days' ps' sg' patient)))"
proof -
  obtain u where u: "current_user (db a) sess = Some u"
    and v: "output_view a sess (u_id u) now = (Inr (Render_output days ps sg patient), sess', a')"
    using output_route_Render_D [OF assms] by blast
  have s: "sess' = sess"
    using output_view_session [of a sess "u_id u" now] by (simp add: v)
  have "fst (output_view a sess (u_id u) now) = Inr (Render_output days ps sg patient)"
    by (simp add: v)
  then have p: "detection_data sess = Some patient"
    by (rule output_view_Render_D [THEN conjunct1])
  have "users (db a') = users (db a)"
    using output_view_users [of a sess "u_id u" now] by (simp add: v)
  then have u': "current_user (db a') sess = Some u"
    using u current_user_cong [of "db a'" "db a" sess] by simp
  have r: "output_route a' sess now' = output_view a' sess (u_id u) now'"
    by (simp add: output_route_def u')
  have n1: "fst (output_route a' sess now') \<noteq> Inr (Redirect ''detection'')"
    unfolding r by (rule output_view_not_redirect [OF p])
  have n2: "fst (output_route a' sess now') \<noteq> Inr (Redirect ''login'')"
    unfolding r by (rule output_view_not_redirect [OF p])
  have again: "list_all (\<lambda>p. p < length (precautions (db a'))) (shd (py_random a')) \<longrightarrow>
       (\<exists>days' ps' sg'. fst (output_route a' sess now') =
          Inr (Render_output days' ps' sg' patient))"
    using output_route_render [OF u' p, of now'] by blast
  show ?thesis
    unfolding s using p n1 n2 again by blast
qed

theorem C9_session_kept_witness:
  "output_route demo_app demo_session 100 =
     (Inr (Render_output 10 (take 5 (precautions demo_db)) fallback_suggestions demo_patient),
      demo_session, demo_app1) \<and>
   detection_data demo_session = Some demo_patient \<and>
   fst (output_route demo_app1 demo_session 160) \<noteq> Inr (Redirect ''detection'') \<and>
   list_all (\<lambda>p. p < length (precautions (db demo_app1))) (shd (py_random demo_app1)) \<and>
   (\<exists>days ps sg. fst (output_route demo_app1 demo_session 160) =
      Inr (Render_output days ps sg demo_patient))"
proof -
  have run: "output_route demo_app demo_session 100 =
     (Inr (Render_output 10 (take 5 (precautions demo_db)) fallback_suggestions demo_patient),
      demo_session, demo_app1)"
    unfolding demo_app1_def by (rule demo_run_full)
  have c: "list_all (\<lambda>p. p < length (precautions (db demo_app1))) (shd (py_random demo_app1))"
    using demo_app1_facts(1) by (simp add: demo_ready_def demo_db_precautions)
  show ?thesis
    using C9_session_kept [OF run, of 160] run c by blast
qed


section \<open>Claims about the store\<close>

text \<open>
  C5. For a store holding \<open>n\<close> precautions (rows with pairwise distinct keys) and any
  order of the \<open>n\<close> positions as the outcome of the generator, the selection returns
  without error \<open>min 5 n\<close> precautions of the store, pairwise distinct; when \<open>n < 5\<close>
  these are all the stored precautions. Whatever the generator gives, the selection
  never raises \<^verbatim>\<open>ValueError\<close>, and a returned selection has at most \<open>min 5 n\<close> rows, all
  of the store. Uniformly: every arrangement of \<open>min 5 n\<close> distinct stored precautions
  is the selection for the same number of orders, \<open>(n - min 5 n)!\<close> of the \<open>n!\<close>.
\<close>

theorem C5_select_precautions:
  assumes "distinct (map p_id (precautions d))"
    and "position_order (length (precautions d)) (shd rng)"
  shows "(\<exists>sel. select_precautions d rng = (Inr sel, stl rng) \<and>
            length sel = min 5 (length (precautions d)) \<and>
            distinct (map p_id sel) \<and> distinct sel \<and>
            set sel \<subseteq> set (precautions d) \<and>
            (length (precautions d) < 5 \<longrightarrow> mset sel = mset (precautions d))) \<and>
    (\<forall>rng'. fst (select_precautions d rng') \<noteq> Inl ValueError) \<and>
    (\<forall>rng' sel. fst (select_precautions d rng') = Inr sel \<longrightarrow>
       length sel \<le> min 5 (length (precautions d)) \<and> set sel \<subseteq> set (precautions d)) \<and>
    (\<forall>sel tail. length sel = min 5 (length (precautions d)) \<and> distinct sel \<and>
           set sel \<subseteq> set (precautions d) \<longrightarrow>
       card {order. position_order (length (precautions d)) order \<and>
                    fst (select_precautions d (order ## tail)) = Inr sel} =
       fact (length (precautions d) - min 5 (length (precautions d))))"
proof -
  let ?xs = "precautions d"
  define k where "k = min 5 (length ?xs)"
  define chosen where "chosen = take k (shd rng)"
  define sel0 where "sel0 = map (\<lambda>p. ?xs ! p) chosen"
  have kn: "k \<le> length ?xs"
    unfolding k_def by (rule min.cobounded2)
  have dx: "distinct ?xs"
    using assms(1) by (simp add: distinct_map)
  have "sample_contract (length ?xs) k (take k (shd rng))"
    using assms(2) kn by (rule position_order_take)
  then have "length chosen = k \<and> distinct chosen \<and> (\<forall>p \<in> set chosen. p < length ?xs)"
    unfolding chosen_def by (rule sample_contract_D)
  then have c: "length chosen = k" "distinct chosen" "\<forall>p \<in> set chosen. p < length ?xs"
    by blast+
  have "list_all (\<lambda>p. p < length ?xs) (shd rng)"
    using assms(2) by (simp add: position_order_def)
  then have "select_precautions d rng =
      (Inr (map (\<lambda>p. ?xs ! p) (take (min 5 (length ?xs)) (shd rng))), stl rng)"
    by (rule select_precautions_in_contract)
  then have run: "select_precautions d rng = (Inr sel0, stl rng)"
    by (simp only: sel0_def chosen_def k_def)
  have "length sel0 = k"
    unfolding sel0_def using c(1) by (simp only: length_map)
  then have len: "length sel0 = min 5 (length (precautions d))"
    by (simp only: k_def)
  have "distinct (map (\<lambda>p. map p_id ?xs ! p) chosen)"
    using assms(1) c(2) by (rule sampled_distinct) (simp add: c(3))
  moreover have "map p_id sel0 = map (\<lambda>p. map p_id ?xs ! p) chosen"
    unfolding sel0_def using c(3) by simp
  ultimately have dk: "distinct (map p_id sel0)"
    by (simp only:)
  have ds: "distinct sel0"
    unfolding sel0_def using dx c(2,3) by (rule sampled_distinct)
  have sub: "set sel0 \<subseteq> set (precautions d)"
    unfolding sel0_def using c(3) by (rule sampled_subset)
  have all: "length (precautions d) < 5 \<longrightarrow> mset sel0 = mset (precautions d)"
  proof
    assume "length ?xs < 5"
    then have "k = length ?xs"
      unfolding k_def by (simp only: min_def) simp
    then have "length chosen = length ?xs"
      using c(1) by (simp only:)
    with c(2,3) show "mset sel0 = mset ?xs"
      unfolding sel0_def by (rule full_sample_mset)
  qed
  have first: "\<exists>sel. select_precautions d rng = (Inr sel, stl rng) \<and>
            length sel = min 5 (length (precautions d)) \<and>
            distinct (map p_id sel) \<and> distinct sel \<and>
            set sel \<subseteq> set (precautions d) \<and>
            (length (precautions d) < 5 \<longrightarrow> mset sel = mset (precautions d))"
    using run len dk ds sub all by (intro exI [of _ sel0] conjI) assumption+
  have nov: "\<forall>rng'. fst (select_precautions d rng') \<noteq> Inl ValueError"
    by (simp add: select_precautions_no_ValueError)
  have bnd: "\<forall>rng' sel. fst (select_precautions d rng') = Inr sel \<longrightarrow>
       length sel \<le> min 5 (length (precautions d)) \<and> set sel \<subseteq> set (precautions d)"
    using select_precautions_bounds by blast
  have uni: "\<forall>sel tail. length sel = min 5 (length (precautions d)) \<and> distinct sel \<and>
           set sel \<subseteq> set (precautions d) \<longrightarrow>
       card {order. position_order (length (precautions d)) order \<and>
                    fst (select_precautions d (order ## tail)) = Inr sel} =
       fact (length (precautions d) - min 5 (length (precautions d)))"
    using select_precautions_fibre [OF dx] by blast
  show ?thesis
    using first nov bnd uni by (intro conjI) assumption+
qed

theorem C5_select_precautions_witness:
  "length (precautions short_db) = 3 \<and>
   distinct (map p_id (precautions short_db)) \<and>
   position_order 3 [2, 0, 1] \<and>
   select_precautions short_db (sconst [2, 0, 1]) =
     (Inr (map (\<lambda>p. precautions short_db ! p) [2, 0, 1]), sconst [2, 0, 1]) \<and>
   mset (map (\<lambda>p. precautions short_db ! p) [2, 0, 1]) = mset (precautions short_db) \<and>
   length (precautions demo_db) = 10 \<and>
   position_order 10 [9, 8, 7, 6, 5, 4, 3, 2, 1, 0] \<and>
   fst (select_precautions demo_db (sconst [9, 8, 7, 6, 5, 4, 3, 2, 1, 0])) =
     Inr (map (\<lambda>p. precautions demo_db ! p) [9, 8, 7, 6, 5]) \<and>
   map p_id (map (\<lambda>p. precautions demo_db ! p) [9, 8, 7, 6, 5]) = [10, 9, 8, 7, 6] \<and>
   card {order. position_order 10 order \<and>
           fst (select_precautions demo_db (order ## sconst [9, 8, 7, 6, 5, 4, 3, 2, 1, 0])) =
             Inr (map (\<lambda>p. precautions demo_db ! p) [9, 8, 7, 6, 5])} = 120"
proof -
  have l: "length (precautions short_db) = 3"
    by (rule short_db_precautions(1))
  have k: "distinct (map p_id (precautions short_db))"
    by (simp add: short_db_precautions(2))
  have c: "position_order 3 [2, 0, 1]"
    by (simp add: position_order_def)
  have c': "position_order (length (precautions short_db)) (shd (sconst [2, 0, 1]))"
    using c by (simp add: l)
  have run: "select_precautions short_db (sconst [2, 0, 1]) =
      (Inr (map (\<lambda>p. precautions short_db ! p) [2, 0, 1]), sconst [2, 0, 1])"
    using select_precautions_in_contract [of short_db "sconst [2, 0, 1]"]
    by (simp add: l)
  obtain sel where s: "select_precautions short_db (sconst [2, 0, 1]) = (Inr sel, stl (sconst [2, 0, 1]))"
      "length (precautions short_db) < 5 \<longrightarrow> mset sel = mset (precautions short_db)"
    using C5_select_precautions [OF k c'] by blast
  have "sel = map (\<lambda>p. precautions short_db ! p) [2, 0, 1]"
    using s(1) run by simp
  then have m: "mset (map (\<lambda>p. precautions short_db ! p) [2, 0, 1]) = mset (precautions short_db)"
    using s(2) l by simp
  have l10: "length (precautions demo_db) = 10"
    by (rule demo_db_precautions(3))
  have k10: "distinct (map p_id (precautions demo_db))"
    by (simp add: demo_db_precautions(1))
  have o10: "position_order 10 [9, 8, 7, 6, 5, 4, 3, 2, 1, 0]"
    by (simp add: position_order_def)
  have o10': "position_order (length (precautions demo_db))
      (shd (sconst [9, 8, 7, 6, 5, 4, 3, 2, 1, 0]))"
    using o10 by (simp add: l10)
  have run10: "select_precautions demo_db (sconst [9, 8, 7, 6, 5, 4, 3, 2, 1, 0]) =
      (Inr (map (\<lambda>p. precautions demo_db ! p) [9, 8, 7, 6, 5]),
       sconst [9, 8, 7, 6, 5, 4, 3, 2, 1, 0])"
    using select_precautions_in_contract [of demo_db "sconst [9, 8, 7, 6, 5, 4, 3, 2, 1, 0]"]
    by (simp add: l10)
  obtain sel10 where s10:
      "select_precautions demo_db (sconst [9, 8, 7, 6, 5, 4, 3, 2, 1, 0]) =
         (Inr sel10, stl (sconst [9, 8, 7, 6, 5, 4, 3, 2, 1, 0]))"
      "length sel10 = min 5 (length (precautions demo_db))" "distinct sel10"
      "set sel10 \<subseteq> set (precautions demo_db)"
    using C5_select_precautions [OF k10 o10'] by blast
  have e10: "sel10 = map (\<lambda>p. precautions demo_db ! p) [9, 8, 7, 6, 5]"
    using s10(1) run10 by simp
  have "card {order. position_order (length (precautions demo_db)) order \<and>
           fst (select_precautions demo_db (order ## sconst [9, 8, 7, 6, 5, 4, 3, 2, 1, 0])) = Inr sel10} =
        fact (length (precautions demo_db) - min 5 (length (precautions demo_db)))"
    using C5_select_precautions [OF k10 o10'] s10(2,3,4) by blast
  then have card10: "card {order. position_order 10 order \<and>
           fst (select_precautions demo_db (order ## sconst [9, 8, 7, 6, 5, 4, 3, 2, 1, 0])) =
             Inr (map (\<lambda>p. precautions demo_db ! p) [9, 8, 7, 6, 5])} = 120"
    by (simp add: l10 e10 fact_numeral)
  have ids: "map p_id (map (\<lambda>p. precautions demo_db ! p) [9, 8, 7, 6, 5]) = [10, 9, 8, 7, 6]"
    by (simp add: demo_db_def init_db_def empty_db_def seed_precautions_def add_precaution_def
        next_pk_def)
  have r10: "fst (select_precautions demo_db (sconst [9, 8, 7, 6, 5, 4, 3, 2, 1, 0])) =
     Inr (map (\<lambda>p. precautions demo_db ! p) [9, 8, 7, 6, 5])"
    by (simp only: run10 fst_conv)
  show ?thesis
    using l k c run m l10 o10 r10 ids card10 by (intro conjI) assumption+
qed


text \<open>
  C8. Initialization of a store without precautions adds the ten fixed strings of
  \<^verbatim>\<open>init_db\<close>, in order, under distinct keys, and touches neither accounts nor
  predictions; a store that holds a precaution is left as it is, so a second
  initialization adds nothing. The ten strings are pairwise distinct and are the ones
  the specification lists (in full, or by their beginning where it elides the rest).
\<close>

theorem C8_init_db_seeds_once:
  "(precautions d = [] \<longrightarrow>
      map p_text (precautions (init_db d)) = seed_precautions \<and>
      length (precautions (init_db d)) = 10 \<and>
      distinct (map p_id (precautions (init_db d))) \<and>
      users (init_db d) = users d \<and> predictions (init_db d) = predictions d \<and>
      init_db (init_db d) = init_db d) \<and>
   (precautions d \<noteq> [] \<longrightarrow> init_db d = d) \<and>
   length seed_precautions = 10 \<and> distinct seed_precautions \<and>
   list_all2 listed_as spec_seed_listing seed_precautions"
proof (intro conjI impI)
  assume e: "precautions d = []"
  show t: "map p_text (precautions (init_db d)) = seed_precautions"
    by (rule init_db_seeds(1) [OF e])
  have "length (map p_text (precautions (init_db d))) = 10"
    unfolding t by (rule seed_distinct(2))
  then show l: "length (precautions (init_db d)) = 10" by simp
  show "distinct (map p_id (precautions (init_db d)))"
    unfolding init_db_seeds(2) [OF e] by simp
  show "users (init_db d) = users d" by (rule init_db_seeds(3) [OF e])
  show "predictions (init_db d) = predictions d" by (rule init_db_seeds(4) [OF e])
  have "precautions (init_db d) \<noteq> []" using l by auto
  then show "init_db (init_db d) = init_db d" by (rule init_db_seeded)
next
  assume "precautions d \<noteq> []"
  then show "init_db d = d" by (rule init_db_seeded)
qed (rule seed_distinct seed_listing)+

theorem C8_init_db_seeds_once_witness:
  "precautions empty_db = [] \<and>
   map p_text (precautions (init_db empty_db)) = seed_precautions \<and>
   length (precautions (init_db empty_db)) = 10 \<and>
   init_db (init_db empty_db) = init_db empty_db \<and>
   precautions demo_db \<noteq> [] \<and> init_db demo_db = demo_db"
proof -
  have e: "precautions empty_db = []" by (simp add: empty_db_def)
  have n: "precautions demo_db \<noteq> []"
    using demo_db_precautions(3) by auto
  have "map p_text (precautions (init_db empty_db)) = seed_precautions"
    and "length (precautions (init_db empty_db)) = 10"
    and "init_db (init_db empty_db) = init_db empty_db"
    using C8_init_db_seeds_once [of empty_db] e by blast+
  moreover have "init_db demo_db = demo_db"
    using C8_init_db_seeds_once [of demo_db] n by blast
  ultimately show ?thesis using e n by blast
qed

text \<open>
  C7. The claim: two runs of the workflow for one account give two records that the
  recent-history lookup returns most recent first. When both writes fall on one clock
  reading (\<^verbatim>\<open>CURRENT_TIMESTAMP\<close> counts seconds), the two records carry equal
  timestamps, and the lookup, which orders by timestamp alone, lists record 1 before
  record 2: the older first. (For strictly increasing clock readings the order is as
  claimed, \<open>two_runs_history\<close>.)
\<close>

theorem C7_same_second_older_first:
  "map r_id (predictions (db demo_tie)) = [1, 2] \<and>
   map timestamp (predictions (db demo_tie)) = [100, 100] \<and>
   map user_id (predictions (db demo_tie)) = [1, 1] \<and>
   main demo_tie demo_session = Render_main demo_user (predictions (db demo_tie)) \<and>
   map r_id (recent_predictions (db demo_tie) 1) = [1, 2]"
proof -
  obtain r0 where r0: "predictions (db demo_app1) = [r0]" "r_id r0 = 1" "timestamp r0 = 100"
      "user_id r0 = 1"
    using demo_app1_row by blast
  obtain r where g: "demo_ready demo_tie"
    and r: "predictions (db demo_tie) = predictions (db demo_app1) @ [r]" "user_id r = 1"
      "timestamp r = 100" "r_id r = next_pk (map r_id (predictions (db demo_app1)))"
    using demo_ready_step [OF demo_app1_facts(1), of 100] unfolding demo_tie_def by blast
  have id: "r_id r = 2" using r(4) by (simp add: r0 next_pk_def)
  have ps: "predictions (db demo_tie) = [r0, r]" using r(1) by (simp add: r0)
  have rec: "recent_predictions (db demo_tie) 1 = [r0, r]"
    by (simp add: recent_predictions_def ps r0 r(2,3))
  have "main demo_tie demo_session = Render_main demo_user [r0, r]"
    using demo_ready_user [OF g] by (simp add: main_def rec demo_user_def)
  then show ?thesis
    by (simp add: ps rec r0 r(2,3) id)
qed

end
